theory Spec2Isabelle
  imports Main
begin

section \<open>The autostake orchestration engine of src/autostake/index.mjs\<close>

text \<open>
  The engine is the closure returned by \<^verbatim>\<open>Autostake(mnemonic, opts)\<close>: the scheduler
  \<^verbatim>\<open>run\<close>, the retry driver \<^verbatim>\<open>runWithRetry\<close>, the reporting glue \<^verbatim>\<open>logResults\<close> and
  \<^verbatim>\<open>logSummary\<close>, and the runner factory \<^verbatim>\<open>getNetworkRunner\<close>. Its collaborators
  (\<^verbatim>\<open>Network\<close>, \<^verbatim>\<open>Wallet\<close>, \<^verbatim>\<open>NetworkRunner\<close>, \<^verbatim>\<open>Health\<close>, \<^verbatim>\<open>timeStamp\<close>) live in other
  modules. Every call the engine makes on a collaborator is recorded as an event, in
  call order; what a collaborator answers is an input of the model. An exception that
  leaves a function is a value of type \<open>exn\<close>.
\<close>

subsection \<open>Decimal rendering of numbers in template literals\<close>

definition digit :: "nat \<Rightarrow> char" where
  "digit d = ''0123456789'' ! d"

fun show_nat :: "nat \<Rightarrow> string" where
  "show_nat n = (if n < 10 then [digit n] else show_nat (n div 10) @ [digit (n mod 10)])"

declare show_nat.simps [simp del]

definition show_int :: "int \<Rightarrow> string" where
  "show_int i = (if i < 0 then ''-'' @ show_nat (nat (- i)) else show_nat (nat i))"

subsection \<open>Data\<close>

text \<open>
  A JavaScript string that may be \<^verbatim>\<open>undefined\<close> is a \<open>string option\<close>. It is truthy
  when it is present and not empty.
\<close>

definition truthy :: "string option \<Rightarrow> bool" where
  "truthy s = (case s of None \<Rightarrow> False | Some t \<Rightarrow> t \<noteq> [])"

text \<open>One entry of a runner's \<^verbatim>\<open>results\<close>: \<^verbatim>\<open>{message, error}\<close>.\<close>

record tx_result =
  message :: string
  error :: "string option"

text \<open>
  The argument of \<^verbatim>\<open>networkRunner.run\<close> on line 69,
  \<^verbatim>\<open>limitAddresses?.length && limitAddresses\<close>: \<^verbatim>\<open>undefined\<close> when there is no last runner,
  the number 0 when the last runner's failed addresses are empty, the array otherwise.
\<close>

datatype limit_arg = ArgUndefined | ArgZero | ArgAddresses "string list"

text \<open>
  A runner as the engine observes it once \<^verbatim>\<open>run\<close> has settled: \<open>run_throws\<close> is
  \<open>Some e\<close> when \<^verbatim>\<open>run\<close> rejected with a value whose \<^verbatim>\<open>message\<close> is \<open>e\<close>;
  \<open>error_message\<close> is \<^verbatim>\<open>networkRunner.error?.message\<close>.
\<close>

record runner =
  run_throws :: "string option option"
  didSucceed :: bool
  error_message :: "string option"
  results :: "tx_result list"
  failedAddresses :: "string list"
  forceFail :: bool
  queryErrors :: "string list"

text \<open>
  What one call of \<^verbatim>\<open>getNetworkRunner\<close> ends in: a falsy return value (the result of
  \<^verbatim>\<open>timeStamp\<close>), an exception with a \<^verbatim>\<open>message\<close>, or a runner object, given as the state
  it will be in after \<^verbatim>\<open>run\<close> is called with each possible argument.
\<close>

datatype construct_outcome =
    NoRunner
  | ConstructThrows "string option"
  | Built "limit_arg \<Rightarrow> runner"

text \<open>
  The exceptions that leave the engine are the \<^verbatim>\<open>TypeError\<close>s of JavaScript itself:
  \<open>UndefinedProperty p\<close> for reading the property \<open>p\<close> of \<^verbatim>\<open>undefined\<close>, \<open>NotIterable v\<close>
  for a \<^verbatim>\<open>for ... of\<close> over the variable \<open>v\<close> when it holds \<^verbatim>\<open>undefined\<close>.
\<close>

datatype exn = UndefinedProperty string | NotIterable string

text \<open>
  The calls on collaborators. \<open>RunnerRun arg r\<close> is \<^verbatim>\<open>networkRunner.run(arg)\<close> on the
  runner \<open>r\<close>; \<open>Sleep\<close> is the timer of line 81, in milliseconds; the \<open>Health\<close> events are
  the methods of the network's \<^verbatim>\<open>Health\<close> object.
\<close>

datatype event =
    TimeStamp "string list"
  | GetNetworkRunner
  | RunnerRun limit_arg runner
  | Sleep nat
  | HealthStarted string
  | HealthLog "string list"
  | HealthAddLogs "string list"
  | HealthSendLog
  | HealthSuccess string
  | HealthFailed string

text \<open>\<open>autostake_retries\<close> is the field \<^verbatim>\<open>retries\<close> of \<^verbatim>\<open>data.autostake\<close>.\<close>

record autostake_config =
  autostake_retries :: "int option"

record network_data =
  name :: string
  enabled :: "bool option"
  autostake :: "autostake_config option"

subsection \<open>logSummary and logResults (lines 88 to 103)\<close>

fun tx_lines :: "nat \<Rightarrow> tx_result list \<Rightarrow> event list" where
  "tx_lines index [] = []"
| "tx_lines index (result # rest) =
     HealthLog [''TX '' @ show_nat (index + 1) @ '':'', message result] # tx_lines (index + 1) rest"

text \<open>
  \<open>errors\<close> is a sublist of \<open>results\<close>, so the subtraction on line 99 never goes below
  zero and the truncating subtraction of \<open>nat\<close> is the JavaScript one.
\<close>

definition logSummary :: "runner \<Rightarrow> event list" where
  "logSummary networkRunner =
     (let errors = filter (\<lambda>result. truthy (error result)) (results networkRunner)
      in HealthLog [''Sent '' @ show_nat (length (results networkRunner) - length errors) @ ''/''
                      @ show_nat (length (results networkRunner)) @ '' transactions'']
         # tx_lines 0 (results networkRunner))"

text \<open>
  \<open>logResults\<close> receives \<^verbatim>\<open>networkRunner\<close> as it is on lines 71, 80 and 84, where it is
  \<^verbatim>\<open>undefined\<close> when \<^verbatim>\<open>getNetworkRunner\<close> threw. Line 89 evaluates
  \<^verbatim>\<open>networkRunner.queryErrors()\<close> before any call on \<^verbatim>\<open>health\<close>.
\<close>

definition logResults :: "runner option \<Rightarrow> string option \<Rightarrow> string option \<Rightarrow> exn + event list" where
  "logResults networkRunner err msg =
     (case networkRunner of
        None \<Rightarrow> Inl (UndefinedProperty ''queryErrors'')
      | Some r \<Rightarrow>
          Inr ([HealthAddLogs (queryErrors r)] @ logSummary r
               @ (if truthy err then [HealthLog [''Failed with error: '' @ the err]] else [])
               @ (if truthy msg then [HealthLog [the msg]] else [])
               @ [HealthSendLog]))"

subsection \<open>runWithRetry (lines 57 to 86)\<close>

text \<open>Line 61: \<^verbatim>\<open>data.autostake?.retries ?? 2\<close>.\<close>

definition configured_retries :: "network_data \<Rightarrow> int option" where
  "configured_retries data =
     (case autostake data of None \<Rightarrow> None | Some a \<Rightarrow> autostake_retries a)"

definition maxRetries :: "network_data \<Rightarrow> int" where
  "maxRetries data = (case configured_retries data of None \<Rightarrow> 2 | Some r \<Rightarrow> r)"

text \<open>
  What the \<^verbatim>\<open>try\<close> block of lines 63 to 78 leaves behind: one of its two \<^verbatim>\<open>return\<close>s, or
  the values of \<^verbatim>\<open>networkRunner\<close>, \<^verbatim>\<open>error\<close> and \<^verbatim>\<open>runners\<close> with which line 79 is reached.
\<close>

datatype attempt =
    ReturnTrue
  | ReturnRunners "runner list"
  | Failed "runner option" "string option" "runner list"

datatype retry_result = JsTrue | Runners "runner list"

text \<open>\<^verbatim>\<open>xs[xs.length - 1]\<close>: \<^verbatim>\<open>undefined\<close> on an empty array.\<close>

definition last_of :: "'a list \<Rightarrow> 'a option" where
  "last_of xs = (if xs = [] then None else Some (last xs))"

definition limit_of :: "runner option \<Rightarrow> limit_arg" where
  "limit_of lastRunner =
     (case lastRunner of
        None \<Rightarrow> ArgUndefined
      | Some r \<Rightarrow> (if failedAddresses r = [] then ArgZero else ArgAddresses (failedAddresses r)))"

text \<open>
  \<open>constructed\<close> is what \<^verbatim>\<open>getNetworkRunner(data)\<close> did on line 64: the \<^verbatim>\<open>timeStamp\<close> lines it
  printed and its outcome.
\<close>

definition try_block ::
  "string list list \<times> construct_outcome \<Rightarrow> runner list \<Rightarrow> event list \<times> (exn + attempt)" where
  "try_block constructed runners =
     (let lastRunner = last_of runners;
          evs = GetNetworkRunner # map TimeStamp (fst constructed)
      in case snd constructed of
           ConstructThrows e \<Rightarrow> (evs, Inr (Failed None e runners))
         | NoRunner \<Rightarrow> (evs, Inr ReturnTrue)
         | Built run \<Rightarrow>
             (let arg = limit_of lastRunner;
                  networkRunner = run arg;
                  runners' = runners @ [networkRunner];
                  evs' = evs @ [RunnerRun arg networkRunner]
              in case run_throws networkRunner of
                   Some e \<Rightarrow> (evs', Inr (Failed (Some networkRunner) e runners'))
                 | None \<Rightarrow>
                     if didSucceed networkRunner
                     then (case logResults (Some networkRunner) None None of
                             Inl x \<Rightarrow> (evs', Inl x)
                           | Inr logged \<Rightarrow> (evs' @ logged, Inr (ReturnRunners runners')))
                     else (evs', Inr (Failed (Some networkRunner) (error_message networkRunner) runners'))))"

text \<open>The message of line 80.\<close>

definition retry_message :: "network_data \<Rightarrow> nat \<Rightarrow> string" where
  "retry_message data retries =
     ''Failed attempt '' @ show_nat (retries + 1) @ ''/'' @ show_int (maxRetries data + 1)
       @ '', retrying in 30 seconds...''"

text \<open>
  \<open>construct i\<close> is what the call of \<^verbatim>\<open>getNetworkRunner\<close> made with \<^verbatim>\<open>retries\<close> = \<open>i\<close> does.
  On line 79, \<^verbatim>\<open>networkRunner.forceFail\<close> is evaluated only when \<^verbatim>\<open>retries < maxRetries\<close>
  holds.
\<close>

function runWithRetry ::
  "(nat \<Rightarrow> string list list \<times> construct_outcome) \<Rightarrow> network_data \<Rightarrow> nat \<Rightarrow> runner list
     \<Rightarrow> event list \<times> (exn + retry_result)" where
  "runWithRetry construct data retries runners =
     (case try_block (construct retries) runners of
        (evs, Inl x) \<Rightarrow> (evs, Inl x)
      | (evs, Inr ReturnTrue) \<Rightarrow> (evs, Inr JsTrue)
      | (evs, Inr (ReturnRunners runners')) \<Rightarrow> (evs, Inr (Runners runners'))
      | (evs, Inr (Failed networkRunner err runners')) \<Rightarrow>
          if int retries < maxRetries data
          then (case networkRunner of
                  None \<Rightarrow> (evs, Inl (UndefinedProperty ''forceFail''))
                | Some r \<Rightarrow>
                    if \<not> forceFail r
                    then (case logResults networkRunner err (Some (retry_message data retries)) of
                            Inl x \<Rightarrow> (evs, Inl x)
                          | Inr logged \<Rightarrow>
                              (case runWithRetry construct data (retries + 1) runners' of
                                 (evs', res) \<Rightarrow> (evs @ logged @ [Sleep 30000] @ evs', res)))
                    else (case logResults networkRunner err None of
                            Inl x \<Rightarrow> (evs, Inl x)
                          | Inr logged \<Rightarrow> (evs @ logged, Inr (Runners runners'))))
          else (case logResults networkRunner err None of
                  Inl x \<Rightarrow> (evs, Inl x)
                | Inr logged \<Rightarrow> (evs @ logged, Inr (Runners runners'))))"
  by pat_completeness auto
termination
  by (relation "measure (\<lambda>(construct, data, retries, runners). nat (maxRetries data - int retries))") auto

declare runWithRetry.simps [simp del]

subsection \<open>getNetworkRunner (lines 105 to 154)\<close>

text \<open>
  What the collaborators of \<^verbatim>\<open>getNetworkRunner\<close> answer during one call: whether
  \<^verbatim>\<open>network.load()\<close> rejects, the lines that \<^verbatim>\<open>getSigner\<close> prints (lines 159 and 171),
  whether \<^verbatim>\<open>getSigner\<close> or \<^verbatim>\<open>wallet.getAddress()\<close> rejects (with which \<^verbatim>\<open>message\<close>), the bot
  address, whether the derivation path is the preferred one (the test of line 121 fails),
  whether \<^verbatim>\<open>getOperatorByBotAddress\<close> finds an operator, \<^verbatim>\<open>network.authzSupport\<close>, whether
  \<^verbatim>\<open>network.connect()\<close> rejects, \<^verbatim>\<open>network.restUrl\<close>, \<^verbatim>\<open>network.usingDirectory\<close>, and the
  runner that \<^verbatim>\<open>new NetworkRunner\<close> builds. The derivation of the signer itself and the
  registration of lines 145 and 146 are taken to return; the random delay of line 142 is
  a matter of time only and is left out.
\<close>

record network_probe =
  load_rejects :: bool
  prettyName :: string
  signer_lines :: "string list list"
  signer_rejects :: "string option option"
  botAddress :: string
  preferred_path :: bool
  operator_found :: bool
  authzSupport :: bool
  connect_rejects :: "string option option"
  restUrl :: "string option"
  usingDirectory :: bool
  networkRunner :: "limit_arg \<Rightarrow> runner"

definition getNetworkRunner :: "network_probe \<Rightarrow> string list list \<times> construct_outcome" where
  "getNetworkRunner p =
     (if load_rejects p then ([], ConstructThrows (Some ''Unable to load network data for''))
      else
        (let loaded = [[''Loaded'', prettyName p]] @ signer_lines p
         in case signer_rejects p of
              Some e \<Rightarrow> (loaded, ConstructThrows e)
            | None \<Rightarrow>
                (let lines = loaded @ [[''Bot address is'', botAddress p]]
                       @ (if preferred_path p then []
                          else [[''!! You are not using the preferred derivation path !!''],
                                [''!! You should switch to the correct path unless you have grants. Check the README !!'']])
                 in if \<not> operator_found p then (lines @ [[''Not an operator'']], NoRunner)
                    else if \<not> authzSupport p then (lines @ [[''No Authz support'']], NoRunner)
                    else case connect_rejects p of
                           Some e \<Rightarrow> (lines, ConstructThrows e)
                         | None \<Rightarrow>
                             if \<not> truthy (restUrl p)
                             then (lines, ConstructThrows (Some ''Could not connect to REST API''))
                             else (lines @ [[''Using REST URL'', the (restUrl p)]]
                                     @ (if usingDirectory p
                                        then [[''You are using public nodes, script may fail with many delegations. Check the README to use your own''],
                                              [''Delaying briefly to reduce load...'']]
                                        else []),
                                   Built (networkRunner p)))))"

subsection \<open>run (lines 26 to 55)\<close>

text \<open>The loop of lines 28 to 30: the first name that is truthy and not configured.\<close>

fun invalid_name :: "string list \<Rightarrow> string list \<Rightarrow> string option" where
  "invalid_name known [] = None"
| "invalid_name known (n # ns) =
     (if n \<noteq> [] \<and> n \<notin> set known then Some n else invalid_name known ns)"

fun attempt_lines :: "nat \<Rightarrow> runner list \<Rightarrow> event list" where
  "attempt_lines index [] = []"
| "attempt_lines index (result # rest) =
     HealthLog [''Attempt '' @ show_nat (index + 1) @ '':''] # logSummary result
       @ attempt_lines (index + 1) rest"

text \<open>The marker of line 37, U+269B, as its UTF-8 bytes.\<close>

definition atom_marker :: string where
  "atom_marker = [CHR 0xE2, CHR 0x9A, CHR 0x9B]"

text \<open>
  The closure of lines 32 to 52 for one network. When \<^verbatim>\<open>results\<close> is \<^verbatim>\<open>true\<close>, line 39
  skips the summary, \<^verbatim>\<open>results.length\<close> is \<^verbatim>\<open>undefined\<close>, \<^verbatim>\<open>lastResult\<close> is \<^verbatim>\<open>undefined\<close>
  and line 47 raises.
\<close>

definition network_call ::
  "(nat \<Rightarrow> string list list \<times> construct_outcome) \<Rightarrow> string list option \<Rightarrow> network_data
     \<Rightarrow> event list \<times> exn option" where
  "network_call construct networkNames data =
     (if networkNames \<noteq> None \<and> the networkNames \<noteq> [] \<and> name data \<notin> set (the networkNames)
      then ([], None)
      else if enabled data = Some False then ([], None)
      else
        (case runWithRetry construct data 0 [] of
           (evs, Inl x) \<Rightarrow> (HealthStarted atom_marker # evs, Some x)
         | (evs, Inr JsTrue) \<Rightarrow> (HealthStarted atom_marker # evs, Some (UndefinedProperty ''didSucceed''))
         | (evs, Inr (Runners rs)) \<Rightarrow>
             (let summary =
                    HealthLog [''Autostake completed in '' @ show_nat (length rs) @ '' attempt(s)'']
                      # attempt_lines 0 rs
              in case last_of rs of
                   None \<Rightarrow>
                     (HealthStarted atom_marker # evs @ summary, Some (UndefinedProperty ''didSucceed''))
                 | Some lastResult \<Rightarrow>
                     if didSucceed lastResult
                     then (HealthStarted atom_marker # evs @ summary @ [HealthSuccess ''Autostake finished''], None)
                     else (HealthStarted atom_marker # evs @ summary @ [HealthFailed ''Autostake failed''], None))))"

text \<open>
  Modelled from the spec: \<^verbatim>\<open>executeSync\<close> is imported from utils/Helpers.mjs, which is not
  among the sources. The spec has the networks "processed strictly sequentially
  (concurrency = 1)": the calls run one after the other, in order. Line 54 awaits the
  result with no handler, so a call that raises ends the sequence with its exception.
\<close>

fun executeSync :: "('e list \<times> exn option) list \<Rightarrow> 'e list \<times> exn option" where
  "executeSync [] = ([], None)"
| "executeSync (call # calls) =
     (case call of
        (evs, Some x) \<Rightarrow> (evs, Some x)
      | (evs, None) \<Rightarrow> (case executeSync calls of (evs', res) \<Rightarrow> (evs @ evs', res)))"

text \<open>
  An event of a whole invocation: a line printed by \<^verbatim>\<open>run\<close> itself, or an event of the
  call made for the network of the given name.
\<close>

datatype run_event = TopLevel event | InNetwork string event

text \<open>
  \<open>networks\<close> is the value of \<^verbatim>\<open>getNetworksData()\<close>; \<open>construct data i\<close> is what
  \<^verbatim>\<open>getNetworkRunner(data)\<close> does at its call number \<open>i\<close>. \<open>networkNames\<close> is \<open>None\<close> when
  \<^verbatim>\<open>run\<close> is called without an argument: \<^verbatim>\<open>for (const name of undefined)\<close> raises.
\<close>

definition run ::
  "network_data list \<Rightarrow> (network_data \<Rightarrow> nat \<Rightarrow> string list list \<times> construct_outcome)
     \<Rightarrow> string list option \<Rightarrow> run_event list \<times> exn option" where
  "run networks construct networkNames =
     (case networkNames of
        None \<Rightarrow> ([], Some (NotIterable ''networkNames''))
      | Some ns \<Rightarrow>
          (case invalid_name (map name networks) ns of
             Some n \<Rightarrow> ([TopLevel (TimeStamp [''Invalid network name:'', n])], None)
           | None \<Rightarrow>
               executeSync
                 (map (\<lambda>data. case network_call (construct data) networkNames data of
                                (evs, res) \<Rightarrow> (map (InNetwork (name data)) evs, res))
                      networks)))"

subsection \<open>Observations on a trace\<close>

fun is_construction :: "event \<Rightarrow> bool" where
  "is_construction GetNetworkRunner = True"
| "is_construction _ = False"

fun is_flush :: "event \<Rightarrow> bool" where
  "is_flush HealthSendLog = True"
| "is_flush _ = False"

fun is_terminal_mark :: "event \<Rightarrow> bool" where
  "is_terminal_mark (HealthSuccess _) = True"
| "is_terminal_mark (HealthFailed _) = True"
| "is_terminal_mark _ = False"

definition attempt_count :: "event list \<Rightarrow> nat" where
  "attempt_count evs = length (filter is_construction evs)"

definition flush_count :: "event list \<Rightarrow> nat" where
  "flush_count evs = length (filter is_flush evs)"

fun runs :: "event list \<Rightarrow> (limit_arg \<times> runner) list" where
  "runs [] = []"
| "runs (RunnerRun arg r # evs) = (arg, r) # runs evs"
| "runs (_ # evs) = runs evs"

subsection \<open>Notions of the specification\<close>

text \<open>
  Modelled from the spec: \<^verbatim>\<open>NetworkRunner.run\<close> is defined in NetworkRunner.mjs, which is not
  among the sources. The spec has the runner perform its action "given an optional
  restricted target set", an empty or undefined one "meaning operate on the full default
  target set": a falsy argument is no restriction (\<open>None\<close>), an array restricts the
  run to its addresses.
\<close>

fun restriction :: "limit_arg \<Rightarrow> string list option" where
  "restriction ArgUndefined = None"
| "restriction ArgZero = None"
| "restriction (ArgAddresses addresses) = Some addresses"

text \<open>
  A sequence of runs is narrowed from \<open>prev\<close> when each run received the argument computed
  from the runner of the run just before it, the first one from \<open>prev\<close>.
\<close>

fun narrowed :: "runner option \<Rightarrow> (limit_arg \<times> runner) list \<Rightarrow> bool" where
  "narrowed prev [] = True"
| "narrowed prev ((arg, r) # rest) = (arg = limit_of prev \<and> narrowed (Some r) rest)"

text \<open>
  The skip rules of the specification: a non-empty filter is given and the network's name
  is absent from it, or the network's enabled flag is explicitly false.
\<close>

definition skipped :: "string list option \<Rightarrow> network_data \<Rightarrow> bool" where
  "skipped networkNames data =
     ((case networkNames of None \<Rightarrow> False | Some ns \<Rightarrow> ns \<noteq> [] \<and> name data \<notin> set ns)
      \<or> enabled data = Some False)"

subsection \<open>Example inputs\<close>

definition example_results :: "tx_result list" where
  "example_results = [\<lparr>message = ''a'', error = None\<rparr>, \<lparr>message = ''b'', error = Some ''x''\<rparr>]"

definition failing_runner :: runner where
  "failing_runner =
     \<lparr>run_throws = None, didSucceed = False, error_message = Some ''out of gas'',
      results = example_results, failedAddresses = [''addr2''], forceFail = False,
      queryErrors = []\<rparr>"

definition fatal_runner :: runner where
  "fatal_runner = failing_runner\<lparr>forceFail := True\<rparr>"

definition succeeding_runner :: runner where
  "succeeding_runner =
     \<lparr>run_throws = None, didSucceed = True, error_message = None,
      results = [\<lparr>message = ''a'', error = None\<rparr>], failedAddresses = [], forceFail = False,
      queryErrors = []\<rparr>"

text \<open>A factory that builds the same runner at every call and prints nothing.\<close>

definition always_builds :: "runner \<Rightarrow> nat \<Rightarrow> string list list \<times> construct_outcome" where
  "always_builds r i = ([], Built (\<lambda>arg. r))"

text \<open>A factory whose second runner is the fatal one.\<close>

definition fatal_on_second :: "nat \<Rightarrow> string list list \<times> construct_outcome" where
  "fatal_on_second i = ([], Built (\<lambda>arg. if i = 1 then fatal_runner else failing_runner))"

text \<open>
  The collaborators of a network that loads and connects; \<open>not_operator\<close> is one where the
  bot address is no operator, \<open>unloadable\<close> one whose \<^verbatim>\<open>network.load()\<close> rejects.
\<close>

definition ready_probe :: network_probe where
  "ready_probe =
     \<lparr>load_rejects = False, prettyName = ''Alpha'', signer_lines = [], signer_rejects = None,
      botAddress = ''alpha1bot'', preferred_path = True, operator_found = True,
      authzSupport = True, connect_rejects = None, restUrl = Some ''https://rest.alpha'',
      usingDirectory = False, networkRunner = (\<lambda>arg. succeeding_runner)\<rparr>"

definition not_operator :: network_probe where
  "not_operator = ready_probe\<lparr>operator_found := False\<rparr>"

definition unloadable :: network_probe where
  "unloadable = ready_probe\<lparr>load_rejects := True\<rparr>"

definition network_named :: "string \<Rightarrow> network_data" where
  "network_named n = \<lparr>name = n, enabled = None, autostake = None\<rparr>"

definition with_retries :: "int \<Rightarrow> network_data \<Rightarrow> network_data" where
  "with_retries m data = data\<lparr>autostake := Some \<lparr>autostake_retries = Some m\<rparr>\<rparr>"

section \<open>Counting events\<close>

lemma attempt_count_simps [simp]:
  "attempt_count [] = 0"
  "attempt_count (e # evs) = (if is_construction e then Suc (attempt_count evs) else attempt_count evs)"
  "attempt_count (map TimeStamp ls) = 0"
  "attempt_count (a @ b) = attempt_count a + attempt_count b"
  by (simp_all add: attempt_count_def)

lemma flush_count_simps [simp]:
  "flush_count [] = 0"
  "flush_count (e # evs) = (if is_flush e then Suc (flush_count evs) else flush_count evs)"
  "flush_count (map TimeStamp ls) = 0"
  "flush_count (a @ b) = flush_count a + flush_count b"
  by (simp_all add: flush_count_def)

lemma runs_append [simp]: "runs (a @ b) = runs a @ runs b"
  by (induction a rule: runs.induct) auto

lemma runs_timestamps [simp]: "runs (map TimeStamp ls) = []"
  by (induction ls) auto

lemma marks_timestamps [simp]: "filter is_terminal_mark (map TimeStamp ls) = []"
  by (induction ls) auto

lemma tx_lines_plain:
  "attempt_count (tx_lines i ts) = 0 \<and> flush_count (tx_lines i ts) = 0 \<and> runs (tx_lines i ts) = []
     \<and> filter is_terminal_mark (tx_lines i ts) = []"
  by (induction i ts rule: tx_lines.induct) auto

lemma logSummary_plain:
  "attempt_count (logSummary r) = 0 \<and> flush_count (logSummary r) = 0 \<and> runs (logSummary r) = []
     \<and> filter is_terminal_mark (logSummary r) = []"
  by (simp add: logSummary_def tx_lines_plain)

lemma attempt_lines_plain:
  "attempt_count (attempt_lines i rs) = 0 \<and> flush_count (attempt_lines i rs) = 0
     \<and> filter is_terminal_mark (attempt_lines i rs) = []"
  by (induction i rs rule: attempt_lines.induct) (simp_all add: logSummary_plain)

lemma logResults_Some:
  "\<exists>logged. logResults (Some r) e m = Inr logged \<and> attempt_count logged = 0 \<and> flush_count logged = 1
     \<and> runs logged = [] \<and> filter is_terminal_mark logged = []"
  by (simp add: logResults_def logSummary_plain)

lemma last_of_snoc [simp]: "last_of (rs @ [r]) = Some r"
  by (simp add: last_of_def)

section \<open>One step of runWithRetry\<close>

lemma try_block_NoRunner:
  "snd x = NoRunner \<Longrightarrow> try_block x rs = (GetNetworkRunner # map TimeStamp (fst x), Inr ReturnTrue)"
  by (simp add: try_block_def)

lemma try_block_Throws:
  "snd x = ConstructThrows e \<Longrightarrow>
     try_block x rs = (GetNetworkRunner # map TimeStamp (fst x), Inr (Failed None e rs))"
  by (simp add: try_block_def)

lemma try_block_Built:
  "snd x = Built f \<Longrightarrow> try_block x rs =
     (let nr = f (limit_of (last_of rs));
          evs = GetNetworkRunner # map TimeStamp (fst x) @ [RunnerRun (limit_of (last_of rs)) nr]
      in if run_throws nr = None \<and> didSucceed nr
         then (evs @ projr (logResults (Some nr) None None), Inr (ReturnRunners (rs @ [nr])))
         else (evs, Inr (Failed (Some nr)
                 (case run_throws nr of Some e \<Rightarrow> e | None \<Rightarrow> error_message nr) (rs @ [nr]))))"
  by (auto simp add: try_block_def Let_def logResults_def split: option.splits)

lemma runWithRetry_cases [case_names no_work thrown final retry]:
  fixes c d r rs
  defines "pre \<equiv> GetNetworkRunner # map TimeStamp (fst (c r))"
  obtains
    "snd (c r) = NoRunner" "runWithRetry c d r rs = (pre, Inr JsTrue)"
  | e p where "snd (c r) = ConstructThrows e" "runWithRetry c d r rs = (pre, Inl (UndefinedProperty p))"
  | f nr logged where "snd (c r) = Built f" "nr = f (limit_of (last_of rs))"
      "(run_throws nr = None \<and> didSucceed nr) \<or> forceFail nr \<or> \<not> int r < maxRetries d"
      "attempt_count logged = 0" "flush_count logged = 1" "runs logged = []"
      "filter is_terminal_mark logged = []"
      "runWithRetry c d r rs =
         (pre @ [RunnerRun (limit_of (last_of rs)) nr] @ logged, Inr (Runners (rs @ [nr])))"
  | f nr logged where "snd (c r) = Built f" "nr = f (limit_of (last_of rs))"
      "\<not> (run_throws nr = None \<and> didSucceed nr)" "\<not> forceFail nr" "int r < maxRetries d"
      "attempt_count logged = 0" "flush_count logged = 1" "runs logged = []"
      "filter is_terminal_mark logged = []"
      "runWithRetry c d r rs =
         (pre @ [RunnerRun (limit_of (last_of rs)) nr] @ logged @ [Sleep 30000]
            @ fst (runWithRetry c d (r + 1) (rs @ [nr])),
          snd (runWithRetry c d (r + 1) (rs @ [nr])))"
proof (cases "snd (c r)")
  case NoRunner
  then have "runWithRetry c d r rs = (pre, Inr JsTrue)"
    by (simp add: runWithRetry.simps[of c d r rs] try_block_NoRunner pre_def)
  with NoRunner that(1) show ?thesis by blast
next
  case (ConstructThrows e)
  then have "\<exists>p. runWithRetry c d r rs = (pre, Inl (UndefinedProperty p))"
    by (simp add: runWithRetry.simps[of c d r rs] try_block_Throws pre_def logResults_def)
  with ConstructThrows that(2) show ?thesis by blast
next
  case (Built f)
  define nr where "nr = f (limit_of (last_of rs))"
  define err where "err = (case run_throws nr of Some e \<Rightarrow> e | None \<Rightarrow> error_message nr)"
  show ?thesis
  proof (cases "run_throws nr = None \<and> didSucceed nr")
    case True
    obtain logged where l: "logResults (Some nr) None None = Inr logged" "attempt_count logged = 0"
      "flush_count logged = 1" "runs logged = []" "filter is_terminal_mark logged = []"
      using logResults_Some by blast
    have "runWithRetry c d r rs =
            (pre @ [RunnerRun (limit_of (last_of rs)) nr] @ logged, Inr (Runners (rs @ [nr])))"
      using True Built l(1)
      by (simp add: runWithRetry.simps[of c d r rs] try_block_Built pre_def nr_def Let_def)
    with that(3)[OF Built nr_def _ l(2-5)] True show ?thesis by blast
  next
    case False
    then have tb: "try_block (c r) rs =
        (pre @ [RunnerRun (limit_of (last_of rs)) nr], Inr (Failed (Some nr) err (rs @ [nr])))"
      using Built unfolding nr_def err_def pre_def by (simp add: try_block_Built Let_def)
    show ?thesis
    proof (cases "int r < maxRetries d \<and> \<not> forceFail nr")
      case True
      obtain logged where l: "logResults (Some nr) err (Some (retry_message d r)) = Inr logged"
        "attempt_count logged = 0" "flush_count logged = 1" "runs logged = []"
        "filter is_terminal_mark logged = []"
        using logResults_Some by blast
      have "runWithRetry c d r rs =
         (pre @ [RunnerRun (limit_of (last_of rs)) nr] @ logged @ [Sleep 30000]
            @ fst (runWithRetry c d (r + 1) (rs @ [nr])),
          snd (runWithRetry c d (r + 1) (rs @ [nr])))"
        using True l(1) tb
        by (simp add: runWithRetry.simps[of c d r rs] split: prod.splits)
      with that(4)[OF Built nr_def False _ _ l(2-5)] True show ?thesis by blast
    next
      case nore: False
      obtain logged where l: "logResults (Some nr) err None = Inr logged" "attempt_count logged = 0"
        "flush_count logged = 1" "runs logged = []" "filter is_terminal_mark logged = []"
        using logResults_Some by blast
      have "runWithRetry c d r rs =
              (pre @ [RunnerRun (limit_of (last_of rs)) nr] @ logged, Inr (Runners (rs @ [nr])))"
        using nore l(1) tb
        by (auto simp add: runWithRetry.simps[of c d r rs])
      with that(3)[OF Built nr_def _ l(2-5)] nore show ?thesis by blast
    qed
  qed
qed

section \<open>Invariants of the retry sequence\<close>

lemma attempt_bound:
  "attempt_count (fst (runWithRetry c d r rs)) \<le> 1 + nat (maxRetries d - int r)"
proof (induction "nat (maxRetries d - int r)" arbitrary: r rs rule: less_induct)
  case less
  show ?case
  proof (cases rule: runWithRetry_cases[of c r d rs])
    case no_work
    then show ?thesis by simp
  next
    case (thrown e p)
    then show ?thesis by simp
  next
    case (final f nr logged)
    then show ?thesis by simp
  next
    case (retry f nr logged)
    have "attempt_count (fst (runWithRetry c d (r + 1) (rs @ [nr]))) \<le> 1 + nat (maxRetries d - int (r + 1))"
      using retry(5) by (intro less) simp
    with retry show ?thesis by simp
  qed
qed

lemma history_profile:
  "runWithRetry c d r rs = (evs, Inr (Runners hs)) \<Longrightarrow>
     hs = rs @ map snd (runs evs) \<and> runs evs \<noteq> [] \<and> flush_count evs = length (runs evs)
       \<and> attempt_count evs = length (runs evs) \<and> filter is_terminal_mark evs = []"
proof (induction "nat (maxRetries d - int r)" arbitrary: r rs evs rule: less_induct)
  case less
  show ?case
  proof (cases rule: runWithRetry_cases[of c r d rs])
    case no_work
    with less.prems show ?thesis by simp
  next
    case (thrown e p)
    with less.prems show ?thesis by simp
  next
    case (final f nr logged)
    with less.prems show ?thesis by auto
  next
    case (retry f nr logged)
    define rest where "rest = fst (runWithRetry c d (r + 1) (rs @ [nr]))"
    have "runWithRetry c d (r + 1) (rs @ [nr]) = (rest, Inr (Runners hs))"
      using retry(10) less.prems by (simp add: rest_def prod_eq_iff)
    then have "hs = (rs @ [nr]) @ map snd (runs rest) \<and> runs rest \<noteq> []
       \<and> flush_count rest = length (runs rest)
       \<and> attempt_count rest = length (runs rest) \<and> filter is_terminal_mark rest = []"
      using retry(5) less.hyps[of "r + 1" "rs @ [nr]" rest] by simp
    moreover have "evs = (GetNetworkRunner # map TimeStamp (fst (c r)))
        @ [RunnerRun (limit_of (last_of rs)) nr] @ logged @ [Sleep 30000] @ rest"
      using retry(10) less.prems by (simp add: rest_def)
    ultimately show ?thesis using retry(6-9) by simp
  qed
qed

lemma runs_narrowed:
  "narrowed (last_of rs) (runs (fst (runWithRetry c d r rs)))"
proof (induction "nat (maxRetries d - int r)" arbitrary: r rs rule: less_induct)
  case less
  show ?case
  proof (cases rule: runWithRetry_cases[of c r d rs])
    case no_work
    then show ?thesis by simp
  next
    case (thrown e p)
    then show ?thesis by simp
  next
    case (final f nr logged)
    then show ?thesis by simp
  next
    case (retry f nr logged)
    have "narrowed (last_of (rs @ [nr])) (runs (fst (runWithRetry c d (r + 1) (rs @ [nr]))))"
      using retry(5) by (intro less) simp
    with retry show ?thesis by simp
  qed
qed

lemma narrowed_nth:
  "narrowed prev xs \<Longrightarrow> Suc k < length xs \<Longrightarrow> fst (xs ! Suc k) = limit_of (Some (snd (xs ! k)))"
proof (induction prev xs arbitrary: k rule: narrowed.induct)
  case (1 prev)
  then show ?case by simp
next
  case (2 prev arg r rest)
  show ?case
  proof (cases k)
    case 0
    with 2 show ?thesis by (cases rest) auto
  next
    case (Suc j)
    with 2 show ?thesis by simp
  qed
qed

lemma narrowed_hd: "narrowed prev xs \<Longrightarrow> xs \<noteq> [] \<Longrightarrow> fst (xs ! 0) = limit_of prev"
  by (cases xs) auto

lemma runs_per_attempt:
  "length (runs (fst (runWithRetry c d r rs))) \<le> attempt_count (fst (runWithRetry c d r rs))
     \<and> attempt_count (fst (runWithRetry c d r rs)) \<le> Suc (length (runs (fst (runWithRetry c d r rs))))"
proof (induction "nat (maxRetries d - int r)" arbitrary: r rs rule: less_induct)
  case less
  show ?case
  proof (cases rule: runWithRetry_cases[of c r d rs])
    case no_work
    then show ?thesis by simp
  next
    case (thrown e p)
    then show ?thesis by simp
  next
    case (final f nr logged)
    then show ?thesis by simp
  next
    case (retry f nr logged)
    have "length (runs (fst (runWithRetry c d (r + 1) (rs @ [nr]))))
            \<le> attempt_count (fst (runWithRetry c d (r + 1) (rs @ [nr])))
          \<and> attempt_count (fst (runWithRetry c d (r + 1) (rs @ [nr])))
            \<le> Suc (length (runs (fst (runWithRetry c d (r + 1) (rs @ [nr])))))"
      using retry(5) by (intro less) simp
    with retry show ?thesis by simp
  qed
qed

lemma force_fail_is_last:
  "k < length (runs (fst (runWithRetry c d r rs))) \<Longrightarrow>
   forceFail (snd (runs (fst (runWithRetry c d r rs)) ! k)) \<Longrightarrow>
     Suc k = length (runs (fst (runWithRetry c d r rs)))
     \<and> attempt_count (fst (runWithRetry c d r rs)) = Suc k
     \<and> (\<exists>hs. snd (runWithRetry c d r rs) = Inr (Runners hs))"
proof (induction "nat (maxRetries d - int r)" arbitrary: r rs k rule: less_induct)
  case less
  show ?case
  proof (cases rule: runWithRetry_cases[of c r d rs])
    case no_work
    with less.prems show ?thesis by simp
  next
    case (thrown e p)
    with less.prems show ?thesis by simp
  next
    case (final f nr logged)
    with less.prems show ?thesis by simp
  next
    case (retry f nr logged)
    define rest where "rest = runWithRetry c d (r + 1) (rs @ [nr])"
    have runs_eq: "runs (fst (runWithRetry c d r rs)) = (limit_of (last_of rs), nr) # runs (fst rest)"
      using retry by (simp add: rest_def)
    have count_eq: "attempt_count (fst (runWithRetry c d r rs)) = Suc (attempt_count (fst rest))"
      using retry by (simp add: rest_def)
    have snd_eq: "snd (runWithRetry c d r rs) = snd rest"
      using retry by (simp add: rest_def)
    obtain j where k: "k = Suc j"
      using less.prems retry(4) runs_eq by (cases k) auto
    have "Suc j = length (runs (fst rest)) \<and> attempt_count (fst rest) = Suc j
           \<and> (\<exists>hs. snd rest = Inr (Runners hs))"
      unfolding rest_def
      using retry(5) less.prems runs_eq k by (intro less) (simp_all add: rest_def)
    then show ?thesis using runs_eq count_eq snd_eq k by simp
  qed
qed

lemma always_failing_runs:
  assumes "\<forall>i. \<exists>f. snd (c i) = Built f \<and> (\<forall>a. \<not> didSucceed (f a) \<and> \<not> forceFail (f a))"
    and "int r \<le> maxRetries d"
  shows "\<exists>evs hs. runWithRetry c d r rs = (evs, Inr (Runners hs))
           \<and> length (runs evs) = nat (maxRetries d - int r) + 1
           \<and> (\<forall>x \<in> set (runs evs). \<not> didSucceed (snd x))"
  using assms(2)
proof (induction "nat (maxRetries d - int r)" arbitrary: r rs rule: less_induct)
  case less
  show ?case
  proof (cases rule: runWithRetry_cases[of c r d rs])
    case no_work
    with assms(1) show ?thesis by (metis construct_outcome.distinct(3))
  next
    case (thrown e p)
    with assms(1) show ?thesis by (metis construct_outcome.distinct(5))
  next
    case (final f nr logged)
    have "\<not> didSucceed nr \<and> \<not> forceFail nr"
      using assms(1) final(1,2) by (metis construct_outcome.inject(2))
    with final(3) less.prems have "int r = maxRetries d" by auto
    with final \<open>\<not> didSucceed nr \<and> \<not> forceFail nr\<close> show ?thesis by simp
  next
    case (retry f nr logged)
    have nr: "\<not> didSucceed nr"
      using assms(1) retry(1,2) by (metis construct_outcome.inject(2))
    obtain evs hs where rest: "runWithRetry c d (r + 1) (rs @ [nr]) = (evs, Inr (Runners hs))"
      "length (runs evs) = nat (maxRetries d - int (r + 1)) + 1"
      "\<forall>x \<in> set (runs evs). \<not> didSucceed (snd x)"
      using less.hyps[of "r + 1" "rs @ [nr]"] retry(5) by auto
    have "nat (maxRetries d - int r) = Suc (nat (maxRetries d - int (r + 1)))"
      using retry(5) by simp
    with retry(8,10) rest nr show ?thesis by simp
  qed
qed

section \<open>The call made for one network\<close>

lemma network_call_skipped: "skipped names d \<Longrightarrow> network_call c names d = ([], None)"
  by (auto simp add: skipped_def network_call_def split: option.splits)

lemma network_call_unfold:
  "\<not> skipped names d \<Longrightarrow> network_call c names d =
     (case runWithRetry c d 0 [] of
           (evs, Inl x) \<Rightarrow> (HealthStarted atom_marker # evs, Some x)
         | (evs, Inr JsTrue) \<Rightarrow> (HealthStarted atom_marker # evs, Some (UndefinedProperty ''didSucceed''))
         | (evs, Inr (Runners rs)) \<Rightarrow>
             (let summary =
                    HealthLog [''Autostake completed in '' @ show_nat (length rs) @ '' attempt(s)'']
                      # attempt_lines 0 rs
              in case last_of rs of
                   None \<Rightarrow>
                     (HealthStarted atom_marker # evs @ summary, Some (UndefinedProperty ''didSucceed''))
                 | Some lastResult \<Rightarrow>
                     if didSucceed lastResult
                     then (HealthStarted atom_marker # evs @ summary @ [HealthSuccess ''Autostake finished''], None)
                     else (HealthStarted atom_marker # evs @ summary @ [HealthFailed ''Autostake failed''], None)))"
  by (auto simp add: skipped_def network_call_def split: option.splits)

lemma network_call_started:
  assumes "\<not> skipped names d"
  shows "\<exists>evs. fst (network_call c names d) = HealthStarted atom_marker # GetNetworkRunner # evs"
proof -
  have "\<exists>evs. fst (runWithRetry c d 0 []) = GetNetworkRunner # evs"
    by (cases rule: runWithRetry_cases[of c 0 d "[]"]) auto
  then obtain evs res where r: "runWithRetry c d 0 [] = (GetNetworkRunner # evs, res)"
    by (cases "runWithRetry c d 0 []") auto
  show ?thesis
    by (auto simp add: network_call_unfold[OF assms] r Let_def
             split: sum.splits retry_result.splits option.splits)
qed

lemma network_call_completed:
  assumes "network_call c names d = (evs, None)" "evs \<noteq> []"
  shows "flush_count evs = attempt_count evs \<and> 1 \<le> flush_count evs
           \<and> length (filter is_terminal_mark evs) = 1 \<and> is_terminal_mark (last evs)"
proof -
  have ns: "\<not> skipped names d"
    using assms network_call_skipped[of names d c] by auto
  obtain tr res where r: "runWithRetry c d 0 [] = (tr, res)" by (cases "runWithRetry c d 0 []")
  from assms(1) r obtain hs where res: "res = Inr (Runners hs)"
    by (auto simp add: network_call_unfold[OF ns] Let_def split: sum.splits retry_result.splits)
  from history_profile[OF r[unfolded res]]
  have p: "runs tr \<noteq> []" "flush_count tr = length (runs tr)" "attempt_count tr = length (runs tr)"
    "filter is_terminal_mark tr = []" "hs = map snd (runs tr)" by simp_all
  then have "hs \<noteq> []" by simp
  then have "evs = HealthStarted atom_marker # tr
               @ (HealthLog [''Autostake completed in '' @ show_nat (length hs) @ '' attempt(s)'']
                    # attempt_lines 0 hs)
               @ [if didSucceed (last hs) then HealthSuccess ''Autostake finished''
                  else HealthFailed ''Autostake failed'']"
    using assms(1) r res by (auto simp add: network_call_unfold[OF ns] Let_def last_of_def split: if_splits)
  moreover have "Suc 0 \<le> length (runs tr)" using p(1) by (cases "runs tr") simp_all
  ultimately show ?thesis using p(2-4) by (simp add: attempt_lines_plain)
qed

lemma network_call_bound:
  "attempt_count (fst (network_call c names d)) \<le> 1 + nat (maxRetries d)"
proof (cases "skipped names d")
  case True
  then show ?thesis by (simp add: network_call_skipped)
next
  case False
  obtain tr res where r: "runWithRetry c d 0 [] = (tr, res)" by (cases "runWithRetry c d 0 []")
  have "attempt_count tr \<le> 1 + nat (maxRetries d)"
    using attempt_bound[of c d 0 "[]"] r by simp
  then show ?thesis using r
    by (auto simp add: network_call_unfold[OF False] Let_def attempt_lines_plain
             split: sum.splits retry_result.splits option.splits)
qed


section \<open>Which calls raise\<close>

lemma thrown_construction_raises:
  assumes "snd (c r) = ConstructThrows e"
  shows "runWithRetry c d r rs =
           (GetNetworkRunner # map TimeStamp (fst (c r)),
            Inl (UndefinedProperty (if int r < maxRetries d then ''forceFail'' else ''queryErrors'')))"
  using assms by (simp add: runWithRetry.simps[of c d r rs] try_block_Throws logResults_def)

lemma no_runner_returns_true:
  assumes "snd (c r) = NoRunner"
  shows "runWithRetry c d r rs = (GetNetworkRunner # map TimeStamp (fst (c r)), Inr JsTrue)"
  using assms by (simp add: runWithRetry.simps[of c d r rs] try_block_NoRunner)

lemma built_runners_give_history:
  assumes "\<forall>i. \<exists>f. snd (c i) = Built f"
  shows "\<exists>evs hs. runWithRetry c d r rs = (evs, Inr (Runners hs))"
proof (induction "nat (maxRetries d - int r)" arbitrary: r rs rule: less_induct)
  case less
  show ?case
  proof (cases rule: runWithRetry_cases[of c r d rs])
    case no_work
    with assms show ?thesis by (metis construct_outcome.distinct(3))
  next
    case (thrown e p)
    with assms show ?thesis by (metis construct_outcome.distinct(5))
  next
    case (final f nr logged)
    then show ?thesis by simp
  next
    case (retry f nr logged)
    obtain evs hs where "runWithRetry c d (r + 1) (rs @ [nr]) = (evs, Inr (Runners hs))"
      using less[of "r + 1" "rs @ [nr]"] retry(5) by auto
    with retry(10) show ?thesis by simp
  qed
qed

lemma no_runner_call_raises:
  assumes "\<not> skipped names d" and "snd (c 0) = NoRunner"
  shows "network_call c names d =
           (HealthStarted atom_marker # GetNetworkRunner # map TimeStamp (fst (c 0)),
            Some (UndefinedProperty ''didSucceed''))"
  by (simp add: network_call_unfold[OF assms(1)] no_runner_returns_true[of c 0, OF assms(2)])

lemma thrown_construction_call_raises:
  assumes "\<not> skipped names d" and "snd (c 0) = ConstructThrows e"
  shows "\<exists>p. network_call c names d =
           (HealthStarted atom_marker # GetNetworkRunner # map TimeStamp (fst (c 0)),
            Some (UndefinedProperty p))"
  by (simp add: network_call_unfold[OF assms(1)] thrown_construction_raises[of c 0, OF assms(2)])

lemma built_runners_never_raise:
  assumes "\<forall>i. \<exists>f. snd (c i) = Built f"
  shows "snd (network_call c names d) = None"
proof (cases "skipped names d")
  case True
  then show ?thesis by (simp add: network_call_skipped)
next
  case False
  obtain evs hs where r: "runWithRetry c d 0 [] = (evs, Inr (Runners hs))"
    using built_runners_give_history[OF assms] by blast
  from history_profile[OF r] have "hs \<noteq> []" by simp
  then show ?thesis
    by (simp add: network_call_unfold[OF False] r Let_def last_of_def)
qed

section \<open>The scheduler\<close>

lemma invalid_name_Some:
  "n \<in> set ns \<Longrightarrow> n \<noteq> [] \<Longrightarrow> n \<notin> set known \<Longrightarrow>
     \<exists>bad. invalid_name known ns = Some bad \<and> bad \<in> set ns \<and> bad \<noteq> [] \<and> bad \<notin> set known"
  by (induction ns) auto

lemma invalid_name_None:
  "invalid_name known ns = None \<longleftrightarrow> (\<forall>n \<in> set ns. n = [] \<or> n \<in> set known)"
  by (induction ns) auto

lemma executeSync_events:
  "e \<in> set (fst (executeSync calls)) \<Longrightarrow> \<exists>call \<in> set calls. e \<in> set (fst call)"
  by (induction calls) (auto split: prod.splits option.splits)

lemma executeSync_all:
  "snd (executeSync calls) = None \<Longrightarrow> call \<in> set calls \<Longrightarrow> e \<in> set (fst call) \<Longrightarrow>
     e \<in> set (fst (executeSync calls))"
  by (induction calls) (auto split: prod.splits option.splits)

lemma run_unfold:
  "invalid_name (map name networks) ns = None \<Longrightarrow>
     run networks construct (Some ns) =
       executeSync (map (\<lambda>data. (map (InNetwork (name data)) (fst (network_call (construct data) (Some ns) data)),
                                    snd (network_call (construct data) (Some ns) data))) networks)"
  by (simp add: run_def case_prod_unfold)

lemma run_only_selected:
  assumes "ev \<in> set (fst (run networks construct (Some ns)))"
  shows "(\<exists>n. ev = TopLevel (TimeStamp [''Invalid network name:'', n]))
         \<or> (\<exists>data \<in> set networks. \<exists>e. ev = InNetwork (name data) e \<and> \<not> skipped (Some ns) data)"
proof (cases "invalid_name (map name networks) ns")
  case (Some bad)
  with assms show ?thesis by (simp add: run_def)
next
  case None
  from assms obtain data where d: "data \<in> set networks"
    and e: "ev \<in> set (map (InNetwork (name data)) (fst (network_call (construct data) (Some ns) data)))"
    unfolding run_unfold[OF None] by (auto dest!: executeSync_events)
  then have "fst (network_call (construct data) (Some ns) data) \<noteq> []" by auto
  then have "\<not> skipped (Some ns) data"
    using network_call_skipped[of "Some ns" data "construct data"] by auto
  with d e show ?thesis by auto
qed

lemma run_all_selected:
  assumes "invalid_name (map name networks) ns = None"
    and "snd (run networks construct (Some ns)) = None"
    and "data \<in> set networks" and "\<not> skipped (Some ns) data"
  shows "InNetwork (name data) (HealthStarted atom_marker) \<in> set (fst (run networks construct (Some ns)))
         \<and> InNetwork (name data) GetNetworkRunner \<in> set (fst (run networks construct (Some ns)))"
proof -
  let ?call = "\<lambda>data. (map (InNetwork (name data)) (fst (network_call (construct data) (Some ns) data)),
                       snd (network_call (construct data) (Some ns) data))"
  obtain evs where evs: "fst (network_call (construct data) (Some ns) data)
                           = HealthStarted atom_marker # GetNetworkRunner # evs"
    using network_call_started[OF assms(4)] by blast
  have in_calls: "?call data \<in> set (map ?call networks)" using assms(3) by simp
  have ok: "snd (executeSync (map ?call networks)) = None"
    using assms(2) unfolding run_unfold[OF assms(1)] .
  have "InNetwork (name data) (HealthStarted atom_marker) \<in> set (fst (?call data))"
    and "InNetwork (name data) GetNetworkRunner \<in> set (fst (?call data))"
    using evs by simp_all
  then show ?thesis
    unfolding run_unfold[OF assms(1)]
    using executeSync_all[OF ok in_calls] by blast
qed

lemma invalid_name_first:
  assumes "\<forall>p \<in> set pre. p = [] \<or> p \<in> set known" and "bad \<noteq> []" and "bad \<notin> set known"
  shows "invalid_name known (pre @ bad # post) = Some bad"
  using assms by (induction pre) auto

lemma invalid_name_split:
  "n \<in> set ns \<Longrightarrow> n \<noteq> [] \<Longrightarrow> n \<notin> set known \<Longrightarrow>
     \<exists>pre bad post. ns = pre @ bad # post \<and> (\<forall>p \<in> set pre. p = [] \<or> p \<in> set known)
        \<and> bad \<noteq> [] \<and> bad \<notin> set known"
proof (induction ns)
  case Nil
  then show ?case by simp
next
  case (Cons a ns)
  show ?case
  proof (cases "a \<noteq> [] \<and> a \<notin> set known")
    case True
    then have "a # ns = [] @ a # ns \<and> (\<forall>p \<in> set []. p = [] \<or> p \<in> set known)
                 \<and> a \<noteq> [] \<and> a \<notin> set known" by simp
    then show ?thesis by blast
  next
    case False
    with Cons.prems have "n \<in> set ns" by auto
    from Cons.IH[OF this Cons.prems(2,3)] obtain pre bad post where
      d: "ns = pre @ bad # post" "\<forall>p \<in> set pre. p = [] \<or> p \<in> set known" "bad \<noteq> []"
         "bad \<notin> set known" by blast
    have "a # ns = (a # pre) @ bad # post \<and> (\<forall>p \<in> set (a # pre). p = [] \<or> p \<in> set known)
            \<and> bad \<noteq> [] \<and> bad \<notin> set known"
      using d False by auto
    then show ?thesis by blast
  qed
qed

lemma run_without_invalid_name:
  assumes "\<forall>n \<in> set ns. n = [] \<or> n \<in> set (map name networks)"
    and "ev \<in> set (fst (run networks construct (Some ns)))"
  shows "\<exists>data \<in> set networks. \<exists>e. ev = InNetwork (name data) e"
proof -
  have none: "invalid_name (map name networks) ns = None"
    using assms(1) by (simp add: invalid_name_None)
  from assms(2) obtain data e where "data \<in> set networks" "ev = InNetwork (name data) e"
    unfolding run_unfold[OF none] by (auto dest!: executeSync_events)
  then show ?thesis by blast
qed

section \<open>The lines of a summary\<close>

lemma length_tx_lines: "length (tx_lines i ts) = length ts"
  by (induction i ts rule: tx_lines.induct) auto

lemma tx_lines_nth:
  "k < length ts \<Longrightarrow>
     tx_lines i ts ! k = HealthLog [''TX '' @ show_nat (i + k + 1) @ '':'', message (ts ! k)]"
proof (induction i ts arbitrary: k rule: tx_lines.induct)
  case (1 index)
  then show ?case by simp
next
  case (2 index result rest)
  then show ?case by (cases k) auto
qed

section \<open>Evaluating the model on the example inputs\<close>

lemma show_nat_digit: "n < 10 \<Longrightarrow> show_nat n = [digit n]"
  by (simp add: show_nat.simps)

lemmas example_defs =
  network_named_def with_retries_def always_builds_def fatal_on_second_def failing_runner_def
  fatal_runner_def succeeding_runner_def example_results_def ready_probe_def not_operator_def
  unloadable_def

lemmas model_defs =
  run_def network_call_def runWithRetry.simps try_block_def logResults_def logSummary_def
  getNetworkRunner_def maxRetries_def configured_retries_def last_of_def limit_of_def truthy_def
  retry_message_def show_int_def show_nat_digit digit_def atom_marker_def skipped_def Let_def

section \<open>The claims\<close>

text \<open>
  C1. For every retry ceiling \<open>m \<ge> 0\<close>: when every attempt gets a runner and every runner
  reports failure with \<open>forceFail\<close> false, \<open>runWithRetry\<close> returns an attempt history of
  exactly \<open>m + 1\<close> runners after exactly \<open>m + 1\<close> attempts, the last runner reports
  failure, and the call made for the network (when the network is not skipped) ends in
  \<^verbatim>\<open>health.failed('Autostake failed')\<close>. Whatever the runners do, the number of attempts
  never exceeds \<open>m + 1\<close>.
\<close>

theorem always_failing_runner_exhausts_retries:
  assumes "maxRetries data = int m"
  shows "((\<forall>i. \<exists>f. snd (construct i) = Built f
                 \<and> (\<forall>arg. \<not> didSucceed (f arg) \<and> \<not> forceFail (f arg)))
            \<longrightarrow> (\<exists>evs hs. runWithRetry construct data 0 [] = (evs, Inr (Runners hs))
                   \<and> length hs = m + 1 \<and> attempt_count evs = m + 1 \<and> \<not> didSucceed (last hs)
                   \<and> (\<not> skipped networkNames data
                        \<longrightarrow> (\<exists>evs'. network_call construct networkNames data = (evs', None)
                                \<and> last evs' = HealthFailed ''Autostake failed''))))
         \<and> attempt_count (fst (runWithRetry construct data 0 [])) \<le> m + 1"
proof (intro conjI impI)
  assume fails: "\<forall>i. \<exists>f. snd (construct i) = Built f
                  \<and> (\<forall>arg. \<not> didSucceed (f arg) \<and> \<not> forceFail (f arg))"
  obtain evs hs where r: "runWithRetry construct data 0 [] = (evs, Inr (Runners hs))"
    and len: "length (runs evs) = nat (maxRetries data - int 0) + 1"
    and bad: "\<forall>x \<in> set (runs evs). \<not> didSucceed (snd x)"
    using always_failing_runs[OF fails, of 0 data "[]"] assms by auto
  from history_profile[OF r] have hs: "hs = map snd (runs evs)" "attempt_count evs = length (runs evs)"
    by simp_all
  have n: "length hs = m + 1" using hs len assms by simp
  then have ne: "hs \<noteq> []" by auto
  then have "last hs \<in> set hs" by simp
  with bad hs(1) have l: "\<not> didSucceed (last hs)" by auto
  have "\<exists>evs'. network_call construct networkNames data = (evs', None)
                  \<and> last evs' = HealthFailed ''Autostake failed''"
    if "\<not> skipped networkNames data"
    using ne l by (simp add: network_call_unfold[OF that] r Let_def last_of_def)
  with r n hs len l
  show "\<exists>evs hs. runWithRetry construct data 0 [] = (evs, Inr (Runners hs))
                   \<and> length hs = m + 1 \<and> attempt_count evs = m + 1 \<and> \<not> didSucceed (last hs)
                   \<and> (\<not> skipped networkNames data
                        \<longrightarrow> (\<exists>evs'. network_call construct networkNames data = (evs', None)
                                \<and> last evs' = HealthFailed ''Autostake failed''))"
    by simp
next
  show "attempt_count (fst (runWithRetry construct data 0 [])) \<le> m + 1"
    using attempt_bound[of construct data 0 "[]"] assms by simp
qed

theorem always_failing_runner_exhausts_retries_witness:
  "maxRetries (with_retries 1 (network_named ''alpha'')) = int 1
   \<and> (\<exists>evs hs. runWithRetry (always_builds failing_runner) (with_retries 1 (network_named ''alpha'')) 0 []
                   = (evs, Inr (Runners hs))
         \<and> length hs = 2 \<and> attempt_count evs = 2 \<and> \<not> didSucceed (last hs))
   \<and> (\<exists>evs'. network_call (always_builds failing_runner) (Some []) (with_retries 1 (network_named ''alpha''))
                  = (evs', None) \<and> last evs' = HealthFailed ''Autostake failed'')
   \<and> attempt_count (fst (runWithRetry (always_builds failing_runner)
                            (with_retries 1 (network_named ''alpha'')) 0 [])) \<le> 2"
proof -
  have m: "maxRetries (with_retries 1 (network_named ''alpha'')) = int 1"
    by (simp add: maxRetries_def configured_retries_def with_retries_def)
  have fails: "\<forall>i. \<exists>f. snd (always_builds failing_runner i) = Built f
                 \<and> (\<forall>arg. \<not> didSucceed (f arg) \<and> \<not> forceFail (f arg))"
    by (simp add: always_builds_def failing_runner_def)
  have sel: "\<not> skipped (Some []) (with_retries 1 (network_named ''alpha''))"
    by (simp add: skipped_def with_retries_def network_named_def)
  from always_failing_runner_exhausts_retries[OF m, of "always_builds failing_runner" "Some []"]
    fails sel m
  show ?thesis by auto
qed


text \<open>
  C2. Let \<open>xs\<close> be the calls of \<^verbatim>\<open>networkRunner.run\<close> made by one retry sequence, in order, each
  with its argument and its runner. The first call gets \<^verbatim>\<open>undefined\<close>: no restriction. The
  call of attempt \<open>k + 1\<close> gets the argument computed from the runner of attempt \<open>k\<close> and
  from no other: that runner's \<open>failedAddresses\<close> when they are not empty, no
  restriction when they are empty. Only the last attempt of a sequence can be without a
  call of \<^verbatim>\<open>run\<close>, so the call at position \<open>k\<close> is the one of attempt \<open>k\<close>.
\<close>

theorem retry_targets_from_previous_attempt:
  assumes "xs = runs (fst (runWithRetry construct data 0 []))"
  shows "(xs \<noteq> [] \<longrightarrow> fst (xs ! 0) = ArgUndefined \<and> restriction (fst (xs ! 0)) = None)
         \<and> (\<forall>k. Suc k < length xs \<longrightarrow>
                fst (xs ! Suc k) = limit_of (Some (snd (xs ! k)))
                \<and> restriction (fst (xs ! Suc k))
                    = (if failedAddresses (snd (xs ! k)) = [] then None
                       else Some (failedAddresses (snd (xs ! k)))))
         \<and> length xs \<le> attempt_count (fst (runWithRetry construct data 0 []))
         \<and> attempt_count (fst (runWithRetry construct data 0 [])) \<le> Suc (length xs)"
proof -
  have n: "narrowed None xs"
    using runs_narrowed[of "[]" construct data 0] assms by (simp add: last_of_def)
  have first: "fst (xs ! 0) = ArgUndefined \<and> restriction (fst (xs ! 0)) = None" if "xs \<noteq> []"
    using narrowed_hd[OF n that] by (simp add: limit_of_def)
  have later: "fst (xs ! Suc k) = limit_of (Some (snd (xs ! k)))
                \<and> restriction (fst (xs ! Suc k))
                    = (if failedAddresses (snd (xs ! k)) = [] then None
                       else Some (failedAddresses (snd (xs ! k))))" if "Suc k < length xs" for k
    using narrowed_nth[OF n that] by (simp add: limit_of_def)
  have counts: "length xs \<le> attempt_count (fst (runWithRetry construct data 0 []))
         \<and> attempt_count (fst (runWithRetry construct data 0 [])) \<le> Suc (length xs)"
    using runs_per_attempt[of construct data 0 "[]"] assms by simp
  show ?thesis
    using first later counts by (auto simp add: limit_of_def)
qed

theorem retry_targets_from_previous_attempt_witness:
  "Suc 0 < length (runs (fst (runWithRetry (always_builds failing_runner)
                                  (with_retries 1 (network_named ''alpha'')) 0 [])))
   \<and> failedAddresses (snd (runs (fst (runWithRetry (always_builds failing_runner)
                                  (with_retries 1 (network_named ''alpha'')) 0 [])) ! 0)) = [''addr2'']
   \<and> restriction (fst (runs (fst (runWithRetry (always_builds failing_runner)
                                  (with_retries 1 (network_named ''alpha'')) 0 [])) ! Suc 0))
       = Some [''addr2'']
   \<and> restriction (fst (runs (fst (runWithRetry (always_builds failing_runner)
                                  (with_retries 1 (network_named ''alpha'')) 0 [])) ! 0)) = None"
proof -
  define xs where "xs = runs (fst (runWithRetry (always_builds failing_runner)
                                  (with_retries 1 (network_named ''alpha'')) 0 []))"
  have e: "xs = [(ArgUndefined, failing_runner), (ArgAddresses [''addr2''], failing_runner)]"
    unfolding xs_def by (simp add: model_defs example_defs)
  have len: "Suc 0 < length xs" and ne: "xs \<noteq> []" using e by simp_all
  have addr: "failedAddresses (snd (xs ! 0)) = [''addr2'']"
    using e by (simp add: failing_runner_def)
  from retry_targets_from_previous_attempt[OF xs_def] len ne addr
  have "restriction (fst (xs ! Suc 0)) = Some [''addr2''] \<and> restriction (fst (xs ! 0)) = None"
    by auto
  with len addr show ?thesis unfolding xs_def by simp
qed

text \<open>
  C3. If the runner of the attempt at position \<open>k\<close> (counted from 0, so attempt number
  \<open>k + 1\<close>) has \<open>forceFail\<close> set, that attempt is the last one: the sequence made exactly
  \<open>k + 1\<close> attempts and \<open>k + 1\<close> runs, and it returns an attempt history of exactly
  \<open>k + 1\<close> runners, whatever retry budget remains. The statement does not need the
  runner to report failure: a runner that succeeds ends the sequence as well.
\<close>

theorem force_fail_ends_retry_sequence:
  assumes "xs = runs (fst (runWithRetry construct data 0 []))"
    and "k < length xs" and "forceFail (snd (xs ! k))"
  shows "length xs = Suc k
         \<and> attempt_count (fst (runWithRetry construct data 0 [])) = Suc k
         \<and> (\<exists>hs. snd (runWithRetry construct data 0 []) = Inr (Runners hs) \<and> length hs = Suc k)"
proof -
  from force_fail_is_last[of k construct data 0 "[]"] assms
  have a: "Suc k = length xs" "attempt_count (fst (runWithRetry construct data 0 [])) = Suc k"
    and "\<exists>hs. snd (runWithRetry construct data 0 []) = Inr (Runners hs)"
    by simp_all
  then obtain hs where hs: "snd (runWithRetry construct data 0 []) = Inr (Runners hs)" by blast
  then have "runWithRetry construct data 0 [] = (fst (runWithRetry construct data 0 []), Inr (Runners hs))"
    by (simp add: prod_eq_iff)
  from history_profile[OF this] assms(1) have "hs = map snd xs" by simp
  with a hs show ?thesis by simp
qed

theorem force_fail_ends_retry_sequence_witness:
  "Suc 0 < length (runs (fst (runWithRetry fatal_on_second (network_named ''alpha'') 0 [])))
   \<and> forceFail (snd (runs (fst (runWithRetry fatal_on_second (network_named ''alpha'') 0 [])) ! Suc 0))
   \<and> maxRetries (network_named ''alpha'') = 2
   \<and> length (runs (fst (runWithRetry fatal_on_second (network_named ''alpha'') 0 []))) = 2
   \<and> attempt_count (fst (runWithRetry fatal_on_second (network_named ''alpha'') 0 [])) = 2
   \<and> (\<exists>hs. snd (runWithRetry fatal_on_second (network_named ''alpha'') 0 []) = Inr (Runners hs)
          \<and> length hs = 2)"
proof -
  define xs where "xs = runs (fst (runWithRetry fatal_on_second (network_named ''alpha'') 0 []))"
  have e: "xs = [(ArgUndefined, failing_runner), (ArgAddresses [''addr2''], fatal_runner)]"
    unfolding xs_def by (simp add: model_defs example_defs)
  have len: "Suc 0 < length xs" using e by simp
  have ff: "forceFail (snd (xs ! Suc 0))" using e by (simp add: fatal_runner_def)
  have m: "maxRetries (network_named ''alpha'') = 2"
    by (simp add: maxRetries_def configured_retries_def network_named_def)
  from force_fail_ends_retry_sequence[OF xs_def len ff] len ff m
  show ?thesis unfolding xs_def by (simp add: numeral_2_eq_2)
qed

text \<open>
  C4. The claim has every path of a network end in a flushed report or, when runner
  construction returns no runner, in a skip that raises nothing. At a network whose bot
  address is no operator, \<^verbatim>\<open>getNetworkRunner\<close> prints its lines and returns the result of
  \<^verbatim>\<open>timeStamp\<close>; \<open>runWithRetry\<close> returns \<^verbatim>\<open>true\<close> (line 65); the closure of \<^verbatim>\<open>run\<close> skips the
  summary (the test of line 39) and then reads \<^verbatim>\<open>didSucceed\<close> of \<^verbatim>\<open>undefined\<close> on line 47:
  the call made for the network raises, after \<^verbatim>\<open>health.started\<close> and with no terminal mark,
  and with the sequential \<open>executeSync\<close> the exception leaves \<^verbatim>\<open>run\<close>.
\<close>

theorem no_runner_raises_at_last_result:
  "getNetworkRunner not_operator
     = ([[''Loaded'', ''Alpha''], [''Bot address is'', ''alpha1bot''], [''Not an operator'']], NoRunner)
   \<and> \<not> skipped (Some []) (network_named ''alpha'')
   \<and> runWithRetry (\<lambda>i. getNetworkRunner not_operator) (network_named ''alpha'') 0 []
       = ([GetNetworkRunner, TimeStamp [''Loaded'', ''Alpha''],
           TimeStamp [''Bot address is'', ''alpha1bot''], TimeStamp [''Not an operator'']],
          Inr JsTrue)
   \<and> network_call (\<lambda>i. getNetworkRunner not_operator) (Some []) (network_named ''alpha'')
       = ([HealthStarted atom_marker, GetNetworkRunner, TimeStamp [''Loaded'', ''Alpha''],
           TimeStamp [''Bot address is'', ''alpha1bot''], TimeStamp [''Not an operator'']],
          Some (UndefinedProperty ''didSucceed''))
   \<and> snd (run [network_named ''alpha''] (\<lambda>data i. getNetworkRunner not_operator) (Some []))
       = Some (UndefinedProperty ''didSucceed'')"
proof (intro conjI)
  show "getNetworkRunner not_operator
     = ([[''Loaded'', ''Alpha''], [''Bot address is'', ''alpha1bot''], [''Not an operator'']], NoRunner)"
    by (simp add: getNetworkRunner_def not_operator_def ready_probe_def)
  show "\<not> skipped (Some []) (network_named ''alpha'')"
    by (simp add: skipped_def network_named_def)
  show "runWithRetry (\<lambda>i. getNetworkRunner not_operator) (network_named ''alpha'') 0 []
       = ([GetNetworkRunner, TimeStamp [''Loaded'', ''Alpha''],
           TimeStamp [''Bot address is'', ''alpha1bot''], TimeStamp [''Not an operator'']],
          Inr JsTrue)"
    by (simp add: model_defs example_defs)
  show "network_call (\<lambda>i. getNetworkRunner not_operator) (Some []) (network_named ''alpha'')
       = ([HealthStarted atom_marker, GetNetworkRunner, TimeStamp [''Loaded'', ''Alpha''],
           TimeStamp [''Bot address is'', ''alpha1bot''], TimeStamp [''Not an operator'']],
          Some (UndefinedProperty ''didSucceed''))"
    by (simp add: model_defs example_defs)
  show "snd (run [network_named ''alpha''] (\<lambda>data i. getNetworkRunner not_operator) (Some []))
       = Some (UndefinedProperty ''didSucceed'')"
    by (simp add: model_defs example_defs)
qed

text \<open>
  C5, as stated, fails: a processed network with one retry whose two attempts fail
  completes its call with two calls of \<^verbatim>\<open>health.sendLog\<close>, not one. \<open>logResults\<close> ends
  in \<^verbatim>\<open>sendLog\<close> and is called once in every attempt (lines 71, 80 and 84).
\<close>

theorem flush_per_attempt_counterexample:
  "\<not> skipped (Some []) (with_retries 1 (network_named ''alpha''))
   \<and> snd (network_call (always_builds failing_runner) (Some []) (with_retries 1 (network_named ''alpha'')))
       = None
   \<and> flush_count (fst (network_call (always_builds failing_runner) (Some [])
                          (with_retries 1 (network_named ''alpha'')))) = 2"
proof (intro conjI)
  show "\<not> skipped (Some []) (with_retries 1 (network_named ''alpha''))"
    by (simp add: skipped_def with_retries_def network_named_def)
  show "snd (network_call (always_builds failing_runner) (Some []) (with_retries 1 (network_named ''alpha'')))
       = None"
    by (simp add: model_defs example_defs)
  show "flush_count (fst (network_call (always_builds failing_runner) (Some [])
                          (with_retries 1 (network_named ''alpha'')))) = 2"
    by (simp add: model_defs example_defs)
qed

text \<open>
  C5, amended. For every processed (not skipped) network whose call completes without
  raising, \<^verbatim>\<open>health.sendLog\<close> is called exactly once per attempt: as often as
  \<^verbatim>\<open>getNetworkRunner\<close> is called, at least once and at most \<open>1 + max maxRetries 0\<close> times
  (a negative ceiling still gives one attempt); and exactly one of \<^verbatim>\<open>health.success\<close>
  and \<^verbatim>\<open>health.failed\<close> is called, as the last event of the call.
\<close>

theorem one_flush_per_attempt_one_terminal_mark:
  assumes "\<not> skipped networkNames data"
    and "network_call construct networkNames data = (evs, None)"
  shows "flush_count evs = attempt_count evs \<and> 1 \<le> flush_count evs
         \<and> flush_count evs \<le> 1 + nat (maxRetries data)
         \<and> length (filter is_terminal_mark evs) = 1 \<and> is_terminal_mark (last evs)"
proof -
  have "evs \<noteq> []"
    using network_call_started[OF assms(1), of construct] assms(2) by auto
  from network_call_completed[OF assms(2) this]
  have a: "flush_count evs = attempt_count evs" "1 \<le> flush_count evs"
    "length (filter is_terminal_mark evs) = 1" "is_terminal_mark (last evs)" by simp_all
  have "attempt_count evs \<le> 1 + nat (maxRetries data)"
    using network_call_bound[of construct networkNames data] assms(2) by simp
  with a show ?thesis by simp
qed

theorem one_flush_per_attempt_one_terminal_mark_witness:
  "\<not> skipped (Some []) (with_retries 1 (network_named ''alpha''))
   \<and> snd (network_call (always_builds failing_runner) (Some []) (with_retries 1 (network_named ''alpha'')))
       = None
   \<and> attempt_count (fst (network_call (always_builds failing_runner) (Some [])
                            (with_retries 1 (network_named ''alpha'')))) = 2
   \<and> flush_count (fst (network_call (always_builds failing_runner) (Some [])
                          (with_retries 1 (network_named ''alpha''))))
       = attempt_count (fst (network_call (always_builds failing_runner) (Some [])
                          (with_retries 1 (network_named ''alpha''))))
   \<and> length (filter is_terminal_mark (fst (network_call (always_builds failing_runner) (Some [])
                          (with_retries 1 (network_named ''alpha''))))) = 1
   \<and> last (fst (network_call (always_builds failing_runner) (Some [])
                          (with_retries 1 (network_named ''alpha'')))) = HealthFailed ''Autostake failed''"
proof -
  define call where "call = network_call (always_builds failing_runner) (Some [])
                          (with_retries 1 (network_named ''alpha''))"
  have sel: "\<not> skipped (Some []) (with_retries 1 (network_named ''alpha''))"
    by (simp add: skipped_def with_retries_def network_named_def)
  have fin: "snd call = None" unfolding call_def by (simp add: model_defs example_defs)
  then have eq: "network_call (always_builds failing_runner) (Some [])
                          (with_retries 1 (network_named ''alpha'')) = (fst call, None)"
    by (simp add: call_def prod_eq_iff)
  have n: "attempt_count (fst call) = 2" unfolding call_def by (simp add: model_defs example_defs)
  have l: "last (fst call) = HealthFailed ''Autostake failed''" unfolding call_def by (simp add: model_defs example_defs)
  from one_flush_per_attempt_one_terminal_mark[OF sel eq] sel fin n l
  show ?thesis unfolding call_def by simp
qed

text \<open>
  C6. The claim has the controller never read \<^verbatim>\<open>forceFail\<close> of an absent runner, retry
  while budget remains and end gracefully when it is exhausted. At a network whose
  \<^verbatim>\<open>network.load()\<close> rejects, \<^verbatim>\<open>getNetworkRunner\<close> throws, line 77 records the message and
  \<^verbatim>\<open>networkRunner\<close> is still \<^verbatim>\<open>undefined\<close>: with the default budget of 2 retries, line 79
  reads \<^verbatim>\<open>networkRunner.forceFail\<close> and raises after a single attempt; with a budget of 0,
  line 79 stops at \<^verbatim>\<open>retries < maxRetries\<close> and \<open>logResults\<close> raises on
  \<^verbatim>\<open>networkRunner.queryErrors()\<close> (line 89). No retry is made and no health event is
  emitted in either case.
\<close>

theorem thrown_construction_dereferences_absent_runner:
  "getNetworkRunner unloadable = ([], ConstructThrows (Some ''Unable to load network data for''))
   \<and> maxRetries (network_named ''alpha'') = 2
   \<and> runWithRetry (\<lambda>i. getNetworkRunner unloadable) (network_named ''alpha'') 0 []
       = ([GetNetworkRunner], Inl (UndefinedProperty ''forceFail''))
   \<and> maxRetries (with_retries 0 (network_named ''alpha'')) = 0
   \<and> runWithRetry (\<lambda>i. getNetworkRunner unloadable) (with_retries 0 (network_named ''alpha'')) 0 []
       = ([GetNetworkRunner], Inl (UndefinedProperty ''queryErrors''))"
proof (intro conjI)
  show "getNetworkRunner unloadable = ([], ConstructThrows (Some ''Unable to load network data for''))"
    by (simp add: getNetworkRunner_def unloadable_def ready_probe_def)
  show "maxRetries (network_named ''alpha'') = 2"
    by (simp add: maxRetries_def configured_retries_def network_named_def)
  show "runWithRetry (\<lambda>i. getNetworkRunner unloadable) (network_named ''alpha'') 0 []
       = ([GetNetworkRunner], Inl (UndefinedProperty ''forceFail''))"
    by (simp add: model_defs example_defs)
  show "maxRetries (with_retries 0 (network_named ''alpha'')) = 0"
    by (simp add: maxRetries_def configured_retries_def with_retries_def)
  show "runWithRetry (\<lambda>i. getNetworkRunner unloadable) (with_retries 0 (network_named ''alpha'')) 0 []
       = ([GetNetworkRunner], Inl (UndefinedProperty ''queryErrors''))"
    by (simp add: model_defs example_defs)
qed


text \<open>
  C7. The claim has \<^verbatim>\<open>run\<close> process all enabled networks when the filter sequence is empty
  or absent. Called without a filter, \<^verbatim>\<open>run\<close> raises on line 28, whatever the networks
  are: \<^verbatim>\<open>for (const name of networkNames)\<close> iterates over \<^verbatim>\<open>undefined\<close>. No network is
  processed. (Line 33 does test \<^verbatim>\<open>networkNames\<close> before reading its length. With a filter
  that is present, empty or not, the lemmas \<open>network_call_skipped\<close>,
  \<open>network_call_started\<close>, \<open>run_only_selected\<close> and \<open>run_all_selected\<close> give the selection
  the claim describes.)
\<close>

theorem run_without_filter_raises:
  "run networks construct None = ([], Some (NotIterable ''networkNames''))"
  by (simp add: run_def)

text \<open>
  C8, as stated, fails: the filter \<^verbatim>\<open>["", "alpha"]\<close> holds a name, the empty string, that
  matches no configured network, and \<^verbatim>\<open>run\<close> does not abort: it builds a runner for
  "alpha" and reports its success. Line 29 tests \<^verbatim>\<open>name &&\<close> first, so a falsy name is
  never invalid.
\<close>

theorem empty_filter_name_counterexample:
  "'''' \<in> set ['''', ''alpha''] \<and> '''' \<notin> set (map name [network_named ''alpha''])
   \<and> InNetwork ''alpha'' GetNetworkRunner
        \<in> set (fst (run [network_named ''alpha''] (\<lambda>data. always_builds succeeding_runner)
                       (Some ['''', ''alpha''])))
   \<and> InNetwork ''alpha'' (HealthSuccess ''Autostake finished'')
        \<in> set (fst (run [network_named ''alpha''] (\<lambda>data. always_builds succeeding_runner)
                       (Some ['''', ''alpha''])))"
  by (simp add: model_defs example_defs)

text \<open>
  C8, amended. If some requested filter name is not empty and matches no configured
  network name, \<^verbatim>\<open>run\<close> prints \<^verbatim>\<open>Invalid network name:\<close> with the first such name of the
  filter (every name before it is empty or configured) and returns: once the
  configuration is loaded, that line is the only event of the invocation, so no runner is
  constructed and no health event is emitted for any network, matching or not. When
  every name of the filter is empty or configured, no such line is printed: an empty
  name is never reported as invalid.
\<close>

theorem invalid_name_aborts_run:
  "((\<exists>n \<in> set ns. n \<noteq> [] \<and> n \<notin> set (map name networks)) \<longrightarrow>
      (\<exists>pre bad post.
          ns = pre @ bad # post
          \<and> (\<forall>p \<in> set pre. p = [] \<or> p \<in> set (map name networks))
          \<and> bad \<noteq> [] \<and> bad \<notin> set (map name networks)
          \<and> run networks construct (Some ns)
              = ([TopLevel (TimeStamp [''Invalid network name:'', bad])], None)))
   \<and> ((\<forall>n \<in> set ns. n = [] \<or> n \<in> set (map name networks)) \<longrightarrow>
        (\<forall>x. TopLevel (TimeStamp [''Invalid network name:'', x])
               \<notin> set (fst (run networks construct (Some ns)))))"
proof (intro conjI impI allI)
  assume "\<exists>n \<in> set ns. n \<noteq> [] \<and> n \<notin> set (map name networks)"
  then obtain n where "n \<in> set ns" "n \<noteq> []" "n \<notin> set (map name networks)" by blast
  from invalid_name_split[OF this] obtain pre bad post where
    d: "ns = pre @ bad # post" "\<forall>p \<in> set pre. p = [] \<or> p \<in> set (map name networks)"
       "bad \<noteq> []" "bad \<notin> set (map name networks)" by blast
  have "invalid_name (map name networks) ns = Some bad"
    unfolding d(1) using invalid_name_first[OF d(2,3,4)] .
  then have "run networks construct (Some ns)
              = ([TopLevel (TimeStamp [''Invalid network name:'', bad])], None)"
    by (simp add: run_def)
  with d show "\<exists>pre bad post.
          ns = pre @ bad # post
          \<and> (\<forall>p \<in> set pre. p = [] \<or> p \<in> set (map name networks))
          \<and> bad \<noteq> [] \<and> bad \<notin> set (map name networks)
          \<and> run networks construct (Some ns)
              = ([TopLevel (TimeStamp [''Invalid network name:'', bad])], None)"
    by blast
next
  fix x
  assume ok: "\<forall>n \<in> set ns. n = [] \<or> n \<in> set (map name networks)"
  show "TopLevel (TimeStamp [''Invalid network name:'', x])
          \<notin> set (fst (run networks construct (Some ns)))"
    using run_without_invalid_name[OF ok] by blast
qed

theorem invalid_name_aborts_run_witness:
  "''delta'' \<in> set [''bravo'', ''delta'', ''echo'']
   \<and> ''delta'' \<notin> set (map name [network_named ''alpha'', network_named ''bravo'', network_named ''charlie''])
   \<and> ''echo'' \<notin> set (map name [network_named ''alpha'', network_named ''bravo'', network_named ''charlie''])
   \<and> run [network_named ''alpha'', network_named ''bravo'', network_named ''charlie'']
          (\<lambda>data. always_builds succeeding_runner) (Some [''bravo'', ''delta'', ''echo''])
       = ([TopLevel (TimeStamp [''Invalid network name:'', ''delta''])], None)
   \<and> TopLevel (TimeStamp [''Invalid network name:'', ''''])
        \<notin> set (fst (run [network_named ''alpha''] (\<lambda>data. always_builds succeeding_runner)
                       (Some ['''', ''alpha''])))"
proof -
  let ?nets = "[network_named ''alpha'', network_named ''bravo'', network_named ''charlie'']"
  let ?c = "\<lambda>data::network_data. always_builds succeeding_runner"
  have a: "''delta'' \<in> set [''bravo'', ''delta'', ''echo'']" by simp
  have c: "''delta'' \<notin> set (map name ?nets)" and c': "''echo'' \<notin> set (map name ?nets)"
    by (simp_all add: network_named_def)
  have some: "\<exists>n \<in> set [''bravo'', ''delta'', ''echo'']. n \<noteq> [] \<and> n \<notin> set (map name ?nets)"
    using c by auto
  from invalid_name_aborts_run[of "[''bravo'', ''delta'', ''echo'']" ?nets ?c] some
  obtain pre bad post where
    d: "[''bravo'', ''delta'', ''echo''] = pre @ bad # post"
       "\<forall>p \<in> set pre. p = [] \<or> p \<in> set (map name ?nets)"
       "bad \<noteq> []" "bad \<notin> set (map name ?nets)"
       "run ?nets ?c (Some [''bravo'', ''delta'', ''echo''])
          = ([TopLevel (TimeStamp [''Invalid network name:'', bad])], None)"
    by blast
  have "invalid_name (map name ?nets) [''bravo'', ''delta'', ''echo''] = Some bad"
    unfolding d(1) using invalid_name_first[OF d(2,3,4)] .
  moreover have "invalid_name (map name ?nets) [''bravo'', ''delta'', ''echo''] = Some ''delta''"
    by (simp add: network_named_def)
  ultimately have "bad = ''delta''" by simp
  with d(5) have first: "run ?nets ?c (Some [''bravo'', ''delta'', ''echo''])
          = ([TopLevel (TimeStamp [''Invalid network name:'', ''delta''])], None)" by simp
  have ok: "\<forall>n \<in> set ['''', ''alpha'']. n = [] \<or> n \<in> set (map name [network_named ''alpha''])"
    by (simp add: network_named_def)
  from invalid_name_aborts_run[of "['''', ''alpha'']" "[network_named ''alpha'']" ?c] ok
  have second: "TopLevel (TimeStamp [''Invalid network name:'', ''''])
        \<notin> set (fst (run [network_named ''alpha''] ?c (Some ['''', ''alpha''])))"
    by blast
  from a c c' first second show ?thesis by simp
qed

text \<open>
  C9. For every runner, \<open>logSummary\<close> first logs the count line
  \<^verbatim>\<open>Sent successCount/totalCount transactions\<close>, where \<open>totalCount\<close> is the number of results
  and \<open>successCount\<close> plus the number of results carrying an error is \<open>totalCount\<close>; it then
  logs exactly one line per result, in the order of the results, the line of the result
  at position \<open>i\<close> being the label \<^verbatim>\<open>TX i+1:\<close> with the result's message. A result carries an
  error when its \<^verbatim>\<open>error\<close> is truthy (line 98). No result gives \<^verbatim>\<open>Sent 0/0 transactions\<close> and
  no other line; the results \<^verbatim>\<open>[{message:"a"}, {message:"b", error:"x"}]\<close> give
  \<^verbatim>\<open>Sent 1/2 transactions\<close>, then the lines of "a" and "b".
\<close>

theorem logSummary_counts_and_lists_results:
  "(\<exists>successCount.
       hd (logSummary r) = HealthLog [''Sent '' @ show_nat successCount @ ''/''
                                        @ show_nat (length (results r)) @ '' transactions'']
       \<and> successCount + length (filter (\<lambda>t. truthy (error t)) (results r)) = length (results r))
   \<and> length (logSummary r) = 1 + length (results r)
   \<and> (\<forall>i. i < length (results r) \<longrightarrow>
          logSummary r ! (i + 1) = HealthLog [''TX '' @ show_nat (i + 1) @ '':'', message (results r ! i)])
   \<and> logSummary (r\<lparr>results := []\<rparr>) = [HealthLog [''Sent 0/0 transactions'']]
   \<and> logSummary (r\<lparr>results := [\<lparr>message = ''a'', error = None\<rparr>,
                                  \<lparr>message = ''b'', error = Some ''x''\<rparr>]\<rparr>)
       = [HealthLog [''Sent 1/2 transactions''], HealthLog [''TX 1:'', ''a''],
          HealthLog [''TX 2:'', ''b'']]"
proof (intro conjI allI impI)
  let ?errors = "filter (\<lambda>t. truthy (error t)) (results r)"
  have "length ?errors \<le> length (results r)" by simp
  then have "length (results r) - length ?errors + length ?errors = length (results r)" by simp
  then show "\<exists>successCount.
       hd (logSummary r) = HealthLog [''Sent '' @ show_nat successCount @ ''/''
                                        @ show_nat (length (results r)) @ '' transactions'']
       \<and> successCount + length ?errors = length (results r)"
    by (auto simp add: logSummary_def)
next
  show "length (logSummary r) = 1 + length (results r)"
    by (simp add: logSummary_def length_tx_lines)
next
  fix i assume "i < length (results r)"
  then show "logSummary r ! (i + 1)
               = HealthLog [''TX '' @ show_nat (i + 1) @ '':'', message (results r ! i)]"
    by (simp add: logSummary_def tx_lines_nth)
next
  show "logSummary (r\<lparr>results := []\<rparr>) = [HealthLog [''Sent 0/0 transactions'']]"
    by (simp add: model_defs)
next
  show "logSummary (r\<lparr>results := [\<lparr>message = ''a'', error = None\<rparr>,
                                  \<lparr>message = ''b'', error = Some ''x''\<rparr>]\<rparr>)
       = [HealthLog [''Sent 1/2 transactions''], HealthLog [''TX 1:'', ''a''],
          HealthLog [''TX 2:'', ''b'']]"
    by (simp add: model_defs)
qed

theorem logSummary_counts_and_lists_results_witness:
  "Suc 0 < length (results failing_runner)
   \<and> message (results failing_runner ! Suc 0) = ''b''
   \<and> truthy (error (results failing_runner ! Suc 0))
   \<and> logSummary failing_runner ! 2 = HealthLog [''TX 2:'', ''b'']
   \<and> length (logSummary failing_runner) = 3"
proof -
  have len: "Suc 0 < length (results failing_runner)"
    by (simp add: example_defs)
  have msg: "message (results failing_runner ! Suc 0) = ''b''"
    and err: "truthy (error (results failing_runner ! Suc 0))"
    by (simp_all add: example_defs truthy_def)
  have two: "length (results failing_runner) = 2" by (simp add: example_defs)
  from logSummary_counts_and_lists_results[of failing_runner] len
  have "logSummary failing_runner ! (Suc 0 + 1)
          = HealthLog [''TX '' @ show_nat (Suc 0 + 1) @ '':'', message (results failing_runner ! Suc 0)]"
    and "length (logSummary failing_runner) = 1 + length (results failing_runner)"
    by blast+
  with len msg err two show ?thesis
    by (simp add: show_nat_digit digit_def numeral_2_eq_2)
qed

text \<open>
  C10. When the configuration of a network gives no \<^verbatim>\<open>autostake.retries\<close> (no \<^verbatim>\<open>autostake\<close>
  object, or one without \<^verbatim>\<open>retries\<close>), the retry ceiling is 2 and the network's retry
  sequence, and so the one call that \<^verbatim>\<open>run\<close> makes for the network, constructs a runner
  at most 3 times, whatever the runners do.
\<close>

theorem default_retry_ceiling:
  assumes "configured_retries data = None"
  shows "maxRetries data = 2
         \<and> attempt_count (fst (runWithRetry construct data 0 [])) \<le> 3
         \<and> attempt_count (fst (network_call construct networkNames data)) \<le> 3"
proof -
  have m: "maxRetries data = 2" using assms by (simp add: maxRetries_def)
  with attempt_bound[of construct data 0 "[]"] network_call_bound[of construct networkNames data]
  show ?thesis by simp
qed

theorem default_retry_ceiling_witness:
  "configured_retries (network_named ''alpha'') = None
   \<and> maxRetries (network_named ''alpha'') = 2
   \<and> attempt_count (fst (network_call (always_builds failing_runner) (Some []) (network_named ''alpha''))) = 3
   \<and> attempt_count (fst (network_call (always_builds failing_runner) (Some []) (network_named ''alpha''))) \<le> 3"
proof -
  have none: "configured_retries (network_named ''alpha'') = None"
    by (simp add: configured_retries_def network_named_def)
  have three: "attempt_count (fst (network_call (always_builds failing_runner) (Some [])
                                     (network_named ''alpha''))) = 3"
    by (simp add: model_defs example_defs)
  from default_retry_ceiling[OF none, of "always_builds failing_runner" "Some []"] none three
  show ?thesis by simp
qed

end
